theory Spec2Isabelle
  imports Main "HOL-Library.AList"
begin

section \<open>Data model (shared schema)\<close>

text \<open>
  The entities of the schema. A JavaScript \<^verbatim>\<open>number\<close> that holds an identity or a
  counter is an \<^typ>\<open>int\<close>: identities are whole numbers, and a double is exact on
  them below \<open>2^53\<close>. A \<^verbatim>\<open>Date\<close> is the integer its \<^verbatim>\<open>getTime()\<close> returns. A
  field of type \<^verbatim>\<open>string | null\<close> (or an optional one) is a \<^typ>\<open>string option\<close>.
  Fields are taken at their declared TypeScript types. Field names carry a prefix
  where two entities have a field of the same name.
\<close>

record user =
  u_id :: int
  username :: string
  password :: string
  displayName :: string
  bio :: "string option"
  avatarUrl :: "string option"
  u_createdAt :: int

record insert_user =
  iu_username :: string
  iu_password :: string
  iu_displayName :: string
  iu_bio :: "string option"
  iu_avatarUrl :: "string option"

text \<open>
  \<^verbatim>\<open>Partial<InsertUser>\<close>: \<open>None\<close> is a key that is not present. For the two
  nullable fields \<open>Some None\<close> is a key present with \<^verbatim>\<open>null\<close> or \<^verbatim>\<open>undefined\<close>. A key
  of one of the three required strings that is present with the value \<^verbatim>\<open>undefined\<close>
  (which the spread in \<^verbatim>\<open>updateUser\<close> would write over the field) lies outside the
  declared type of \<^verbatim>\<open>User\<close> and is not represented; identities, keys and counters do
  not depend on it.
\<close>

record partial_insert_user =
  pu_username :: "string option"
  pu_password :: "string option"
  pu_displayName :: "string option"
  pu_bio :: "string option option"
  pu_avatarUrl :: "string option option"

record post =
  p_id :: int
  p_userId :: int
  p_content :: string
  imageUrl :: "string option"
  p_createdAt :: int

record insert_post =
  ip_userId :: int
  ip_content :: string
  ip_imageUrl :: "string option"

record partial_insert_post =
  pp_userId :: "int option"
  pp_content :: "string option"
  pp_imageUrl :: "string option option"

record comment =
  c_id :: int
  c_postId :: int
  c_userId :: int
  c_content :: string
  c_createdAt :: int

record insert_comment =
  ic_postId :: int
  ic_userId :: int
  ic_content :: string

record like =
  l_id :: int
  l_postId :: int
  l_userId :: int
  l_createdAt :: int

record insert_like =
  il_postId :: int
  il_userId :: int

record follow =
  f_id :: int
  followerId :: int
  followingId :: int
  f_createdAt :: int

record insert_follow =
  if_followerId :: int
  if_followingId :: int

text \<open>
  The derived view types. \<^verbatim>\<open>user: user!\<close> is a non-null assertion that is erased
  at run time, so the embedded user may be \<^verbatim>\<open>undefined\<close>: an \<^typ>\<open>user option\<close>.
  The optional flags \<^verbatim>\<open>isLiked?\<close> and \<^verbatim>\<open>isFollowing?\<close> are \<^typ>\<open>bool option\<close>:
  \<open>None\<close> is the value \<^verbatim>\<open>undefined\<close>, which the JSON serialisation of the
  response leaves out.
\<close>

record post_with_user = post +
  pw_user :: "user option"
  likeCount :: nat
  commentCount :: nat
  isLiked :: "bool option"

record comment_with_user = comment +
  cw_user :: "user option"


section \<open>The in-memory store (MemStorage)\<close>

subsection \<open>JavaScript maps\<close>

text \<open>
  A JavaScript \<^verbatim>\<open>Map\<close> keeps its entries in insertion order: \<^verbatim>\<open>set\<close> replaces the
  value of a key that is present where it stands and appends a new key at the end,
  \<^verbatim>\<open>delete\<close> removes the entry and tells whether there was one, \<^verbatim>\<open>values()\<close> lists
  the values in that order. It is an association list.
\<close>

type_synonym 'v js_map = "(int \<times> 'v) list"

definition Map_get :: "'v js_map \<Rightarrow> int \<Rightarrow> 'v option" where
  "Map_get m k = map_of m k"

definition Map_set :: "int \<Rightarrow> 'v \<Rightarrow> 'v js_map \<Rightarrow> 'v js_map" where
  "Map_set k v m = AList.update k v m"

definition Map_delete :: "int \<Rightarrow> 'v js_map \<Rightarrow> bool \<times> 'v js_map" where
  "Map_delete k m = (map_of m k \<noteq> None, AList.delete k m)"

definition Map_values :: "'v js_map \<Rightarrow> 'v list" where
  "Map_values m = map snd m"

subsection \<open>State\<close>

record mem_storage =
  users :: "user js_map"
  posts :: "post js_map"
  comments :: "comment js_map"
  likes :: "like js_map"
  follows :: "follow js_map"
  currentUserId :: int
  currentPostId :: int
  currentCommentId :: int
  currentLikeId :: int
  currentFollowId :: int

definition defaultAvatars :: "string list" where
  "defaultAvatars =
    [''https://randomuser.me/api/portraits/women/44.jpg'',
     ''https://randomuser.me/api/portraits/men/75.jpg'',
     ''https://randomuser.me/api/portraits/women/68.jpg'',
     ''https://randomuser.me/api/portraits/men/10.jpg'',
     ''https://randomuser.me/api/portraits/women/26.jpg'',
     ''https://randomuser.me/api/portraits/men/32.jpg'']"

text \<open>The constructor: empty maps, every counter at 1.\<close>

definition MemStorage :: mem_storage where
  "MemStorage =
    \<lparr>users = [], posts = [], comments = [], likes = [], follows = [],
     currentUserId = 1, currentPostId = 1, currentCommentId = 1,
     currentLikeId = 1, currentFollowId = 1\<rparr>"

text \<open>
  \<^verbatim>\<open>getRandomAvatar\<close> reads \<^verbatim>\<open>Math.random()\<close>; the index it draws,
  \<^verbatim>\<open>Math.floor(Math.random() * length)\<close>, is the argument \<open>r\<close>.
\<close>

definition getRandomAvatar :: "nat \<Rightarrow> string" where
  "getRandomAvatar r = defaultAvatars ! (r mod length defaultAvatars)"

subsection \<open>Users\<close>

definition getUser :: "mem_storage \<Rightarrow> int \<Rightarrow> user option" where
  "getUser s i = Map_get (users s) i"

text \<open>
  \<^verbatim>\<open>a || b\<close> on an optional string: the empty string is falsy, as \<^verbatim>\<open>null\<close> and
  \<^verbatim>\<open>undefined\<close> are.
\<close>

definition truthy_string :: "string option \<Rightarrow> bool" where
  "truthy_string x = (case x of None \<Rightarrow> False | Some t \<Rightarrow> t \<noteq> [])"

text \<open>The time \<^verbatim>\<open>new Date()\<close> reads is the argument \<open>now\<close> of every create.\<close>

definition createUser :: "mem_storage \<Rightarrow> insert_user \<Rightarrow> int \<Rightarrow> nat \<Rightarrow> user \<times> mem_storage" where
  "createUser s insertUser now r =
    (let i = currentUserId s;
         s1 = s\<lparr>currentUserId := currentUserId s + 1\<rparr>;
         avatar = (if truthy_string (iu_avatarUrl insertUser) then iu_avatarUrl insertUser
                   else Some (getRandomAvatar r));
         b = (if truthy_string (iu_bio insertUser) then iu_bio insertUser else None);
         u = \<lparr>u_id = i, username = iu_username insertUser, password = iu_password insertUser,
              displayName = iu_displayName insertUser, bio = b, avatarUrl = avatar,
              u_createdAt = now\<rparr>
     in (u, s1\<lparr>users := Map_set i u (users s1)\<rparr>))"

definition merge_user :: "user \<Rightarrow> partial_insert_user \<Rightarrow> user" where
  "merge_user u d =
    u\<lparr>username := (case pu_username d of None \<Rightarrow> username u | Some x \<Rightarrow> x),
      password := (case pu_password d of None \<Rightarrow> password u | Some x \<Rightarrow> x),
      displayName := (case pu_displayName d of None \<Rightarrow> displayName u | Some x \<Rightarrow> x),
      bio := (case pu_bio d of None \<Rightarrow> bio u | Some x \<Rightarrow> x),
      avatarUrl := (case pu_avatarUrl d of None \<Rightarrow> avatarUrl u | Some x \<Rightarrow> x)\<rparr>"

definition updateUser :: "mem_storage \<Rightarrow> int \<Rightarrow> partial_insert_user \<Rightarrow> user option \<times> mem_storage" where
  "updateUser s i userData =
    (case getUser s i of
       None \<Rightarrow> (None, s)
     | Some u \<Rightarrow>
         (let updatedUser = merge_user u userData
          in (Some updatedUser, s\<lparr>users := Map_set i updatedUser (users s)\<rparr>)))"

subsection \<open>Comments and likes: reads\<close>

definition getCommentsByPost :: "mem_storage \<Rightarrow> int \<Rightarrow> comment_with_user list" where
  "getCommentsByPost s postId =
    map (\<lambda>c. \<lparr>c_id = c_id c, c_postId = c_postId c, c_userId = c_userId c,
               c_content = c_content c, c_createdAt = c_createdAt c,
               cw_user = getUser s (c_userId c)\<rparr>)
      (filter (\<lambda>c. c_postId c = postId) (Map_values (comments s)))"

definition getLikesByPost :: "mem_storage \<Rightarrow> int \<Rightarrow> like list" where
  "getLikesByPost s postId = filter (\<lambda>l. l_postId l = postId) (Map_values (likes s))"

definition getLike :: "mem_storage \<Rightarrow> int \<Rightarrow> int \<Rightarrow> like option" where
  "getLike s postId userId =
    find (\<lambda>l. l_postId l = postId \<and> l_userId l = userId) (Map_values (likes s))"

subsection \<open>Enrichment\<close>

text \<open>
  \<^verbatim>\<open>if (currentUserId)\<close> tests the truthiness of an optional number: \<^verbatim>\<open>undefined\<close>
  and \<open>0\<close> are both falsy. The optional parameter \<^verbatim>\<open>currentUserId\<close> of the source
  is \<open>viewerId\<close> here (the store has a field of that name).
\<close>

definition truthy_number :: "int option \<Rightarrow> bool" where
  "truthy_number x = (case x of None \<Rightarrow> False | Some n \<Rightarrow> n \<noteq> 0)"

text \<open>The callback that \<^verbatim>\<open>enrichPosts\<close> maps over its posts.\<close>

definition enrichPost :: "mem_storage \<Rightarrow> int option \<Rightarrow> post \<Rightarrow> post_with_user" where
  "enrichPost s viewerId p =
    (let u = getUser s (p_userId p);
         ls = getLikesByPost s (p_id p);
         cs = getCommentsByPost s (p_id p);
         liked = (if truthy_number viewerId
                  then Some (getLike s (p_id p) (the viewerId) \<noteq> None)
                  else None)
     in \<lparr>p_id = p_id p, p_userId = p_userId p, p_content = p_content p,
         imageUrl = imageUrl p, p_createdAt = p_createdAt p,
         pw_user = u, likeCount = length ls, commentCount = length cs, isLiked = liked\<rparr>)"

definition enrichPosts :: "mem_storage \<Rightarrow> post list \<Rightarrow> int option \<Rightarrow> post_with_user list" where
  "enrichPosts s ps viewerId = map (enrichPost s viewerId) ps"

subsection \<open>Posts\<close>

definition getPost :: "mem_storage \<Rightarrow> int \<Rightarrow> post_with_user option" where
  "getPost s i =
    (case Map_get (posts s) i of
       None \<Rightarrow> None
     | Some p \<Rightarrow> (case enrichPosts s [p] None of [] \<Rightarrow> None | e # _ \<Rightarrow> Some e))"

definition createPost :: "mem_storage \<Rightarrow> insert_post \<Rightarrow> int \<Rightarrow> post \<times> mem_storage" where
  "createPost s insertPost now =
    (let i = currentPostId s;
         s1 = s\<lparr>currentPostId := currentPostId s + 1\<rparr>;
         p = \<lparr>p_id = i, p_userId = ip_userId insertPost, p_content = ip_content insertPost,
              imageUrl = ip_imageUrl insertPost, p_createdAt = now\<rparr>
     in (p, s1\<lparr>posts := Map_set i p (posts s1)\<rparr>))"

definition merge_post :: "post \<Rightarrow> partial_insert_post \<Rightarrow> post" where
  "merge_post p d =
    p\<lparr>p_userId := (case pp_userId d of None \<Rightarrow> p_userId p | Some x \<Rightarrow> x),
      p_content := (case pp_content d of None \<Rightarrow> p_content p | Some x \<Rightarrow> x),
      imageUrl := (case pp_imageUrl d of None \<Rightarrow> imageUrl p | Some x \<Rightarrow> x)\<rparr>"

definition updatePost :: "mem_storage \<Rightarrow> int \<Rightarrow> partial_insert_post \<Rightarrow> post option \<times> mem_storage" where
  "updatePost s i postData =
    (case Map_get (posts s) i of
       None \<Rightarrow> (None, s)
     | Some p \<Rightarrow>
         (let updatedPost = merge_post p postData
          in (Some updatedPost, s\<lparr>posts := Map_set i updatedPost (posts s)\<rparr>)))"

text \<open>
  \<^verbatim>\<open>deletePost\<close>: the two \<^verbatim>\<open>for\<close> loops delete, by its own id, every comment and
  every like collected for the post; then the post is deleted by key and the result
  of that last \<^verbatim>\<open>delete\<close> is returned.
\<close>

definition deletePost :: "mem_storage \<Rightarrow> int \<Rightarrow> bool \<times> mem_storage" where
  "deletePost s i =
    (let postComments = filter (\<lambda>c. c_postId c = i) (Map_values (comments s));
         s1 = s\<lparr>comments := fold (\<lambda>c m. snd (Map_delete (c_id c) m)) postComments (comments s)\<rparr>;
         postLikes = filter (\<lambda>l. l_postId l = i) (Map_values (likes s1));
         s2 = s1\<lparr>likes := fold (\<lambda>l m. snd (Map_delete (l_id l) m)) postLikes (likes s1)\<rparr>;
         r = Map_delete i (posts s2)
     in (fst r, s2\<lparr>posts := snd r\<rparr>))"

subsection \<open>Comments and likes: writes\<close>

definition createComment :: "mem_storage \<Rightarrow> insert_comment \<Rightarrow> int \<Rightarrow> comment \<times> mem_storage" where
  "createComment s insertComment now =
    (let i = currentCommentId s;
         s1 = s\<lparr>currentCommentId := currentCommentId s + 1\<rparr>;
         c = \<lparr>c_id = i, c_postId = ic_postId insertComment, c_userId = ic_userId insertComment,
              c_content = ic_content insertComment, c_createdAt = now\<rparr>
     in (c, s1\<lparr>comments := Map_set i c (comments s1)\<rparr>))"

definition deleteComment :: "mem_storage \<Rightarrow> int \<Rightarrow> bool \<times> mem_storage" where
  "deleteComment s i =
    (let r = Map_delete i (comments s) in (fst r, s\<lparr>comments := snd r\<rparr>))"

definition createLike :: "mem_storage \<Rightarrow> insert_like \<Rightarrow> int \<Rightarrow> like \<times> mem_storage" where
  "createLike s insertLike now =
    (let i = currentLikeId s;
         s1 = s\<lparr>currentLikeId := currentLikeId s + 1\<rparr>;
         l = \<lparr>l_id = i, l_postId = il_postId insertLike, l_userId = il_userId insertLike,
              l_createdAt = now\<rparr>
     in (l, s1\<lparr>likes := Map_set i l (likes s1)\<rparr>))"

definition deleteLike :: "mem_storage \<Rightarrow> int \<Rightarrow> int \<Rightarrow> bool \<times> mem_storage" where
  "deleteLike s postId userId =
    (case getLike s postId userId of
       None \<Rightarrow> (False, s)
     | Some l \<Rightarrow> (let r = Map_delete (l_id l) (likes s) in (fst r, s\<lparr>likes := snd r\<rparr>)))"

subsection \<open>Follows\<close>

text \<open>
  \<^verbatim>\<open>getFollowers\<close> and \<^verbatim>\<open>getFollowing\<close> return \<^verbatim>\<open>user!\<close> for each matching row:
  the value \<^verbatim>\<open>undefined\<close> (\<open>None\<close>) stands in the array where the user is not in
  the map.
\<close>

definition getFollowers :: "mem_storage \<Rightarrow> int \<Rightarrow> user option list" where
  "getFollowers s userId =
    map (\<lambda>relation. getUser s (followerId relation))
      (filter (\<lambda>f. followingId f = userId) (Map_values (follows s)))"

definition getFollowing :: "mem_storage \<Rightarrow> int \<Rightarrow> user option list" where
  "getFollowing s userId =
    map (\<lambda>relation. getUser s (followingId relation))
      (filter (\<lambda>f. followerId f = userId) (Map_values (follows s)))"

definition getFollow :: "mem_storage \<Rightarrow> int \<Rightarrow> int \<Rightarrow> follow option" where
  "getFollow s follower following =
    find (\<lambda>f. followerId f = follower \<and> followingId f = following) (Map_values (follows s))"

definition createFollow :: "mem_storage \<Rightarrow> insert_follow \<Rightarrow> int \<Rightarrow> follow \<times> mem_storage" where
  "createFollow s insertFollow now =
    (let i = currentFollowId s;
         s1 = s\<lparr>currentFollowId := currentFollowId s + 1\<rparr>;
         f = \<lparr>f_id = i, followerId = if_followerId insertFollow,
              followingId = if_followingId insertFollow, f_createdAt = now\<rparr>
     in (f, s1\<lparr>follows := Map_set i f (follows s1)\<rparr>))"

definition deleteFollow :: "mem_storage \<Rightarrow> int \<Rightarrow> int \<Rightarrow> bool \<times> mem_storage" where
  "deleteFollow s follower following =
    (case getFollow s follower following of
       None \<Rightarrow> (False, s)
     | Some f \<Rightarrow> (let r = Map_delete (f_id f) (follows s) in (fst r, s\<lparr>follows := snd r\<rparr>)))"

subsection \<open>Feeds\<close>

datatype error = TypeError

text \<open>
  \<^verbatim>\<open>following.map(user => user.id)\<close>: reading \<^verbatim>\<open>id\<close> of \<^verbatim>\<open>undefined\<close> throws a
  \<^verbatim>\<open>TypeError\<close>, which rejects the promise of the whole call.
\<close>

fun user_ids :: "user option list \<Rightarrow> error + int list" where
  "user_ids [] = Inr []"
| "user_ids (None # us) = Inl TypeError"
| "user_ids (Some u # us) =
    (case user_ids us of Inl e \<Rightarrow> Inl e | Inr is \<Rightarrow> Inr (u_id u # is))"

text \<open>
  \<^verbatim>\<open>sort((a, b) => b.createdAt.getTime() - a.createdAt.getTime())\<close>: the comparator
  orders by time, newest first, and \<^verbatim>\<open>Array.prototype.sort\<close> is stable (ECMAScript
  2019), so posts of one time keep the order they had. That is the stable sort on
  the negated time.
\<close>

definition sort_newest_first :: "post list \<Rightarrow> post list" where
  "sort_newest_first ps = sort_key (\<lambda>p. - p_createdAt p) ps"

definition getFeedForUser :: "mem_storage \<Rightarrow> int \<Rightarrow> error + post_with_user list" where
  "getFeedForUser s userId =
    (case user_ids (getFollowing s userId) of
       Inl e \<Rightarrow> Inl e
     | Inr followingIds \<Rightarrow>
         (let feedPosts = sort_newest_first
                (filter (\<lambda>p. p_userId p \<in> set followingIds \<or> p_userId p = userId)
                   (Map_values (posts s)))
          in Inr (enrichPosts s feedPosts (Some userId))))"

definition getDiscoverFeed :: "mem_storage \<Rightarrow> post_with_user list" where
  "getDiscoverFeed s = enrichPosts s (sort_newest_first (Map_values (posts s))) None"

subsection \<open>Search\<close>

text \<open>
  Strings are lists of characters; \<^verbatim>\<open>toLowerCase\<close> is modelled on the ASCII letters
  \<open>A\<close> to \<open>Z\<close> and leaves every other character as it is, where JavaScript also
  lowers letters outside ASCII: the model of the search is exact on ASCII strings
  only. \<^verbatim>\<open>includes\<close> is the substring test (\<open>includes_str\<close> here).
\<close>

definition lower_char :: "char \<Rightarrow> char" where
  "lower_char c =
    (case map_of (zip ''ABCDEFGHIJKLMNOPQRSTUVWXYZ'' ''abcdefghijklmnopqrstuvwxyz'') c of
       None \<Rightarrow> c
     | Some l \<Rightarrow> l)"

definition toLowerCase :: "string \<Rightarrow> string" where
  "toLowerCase t = map lower_char t"

fun startsWith :: "string \<Rightarrow> string \<Rightarrow> bool" where
  "startsWith t [] = True"
| "startsWith [] (c # cs) = False"
| "startsWith (d # ds) (c # cs) = (d = c \<and> startsWith ds cs)"

fun includes_str :: "string \<Rightarrow> string \<Rightarrow> bool" where
  "includes_str [] q = (q = [])"
| "includes_str (d # ds) q = (startsWith (d # ds) q \<or> includes_str ds q)"

definition searchUsers :: "mem_storage \<Rightarrow> string \<Rightarrow> user list" where
  "searchUsers s query =
    (if query = [] then []
     else (let lowercaseQuery = toLowerCase query
           in filter (\<lambda>u. includes_str (toLowerCase (username u)) lowercaseQuery \<or>
                          includes_str (toLowerCase (displayName u)) lowercaseQuery)
                (Map_values (users s))))"

subsection \<open>Users with statistics\<close>


section \<open>The routes that create likes and follows\<close>

text \<open>
  What a handler reads of the request: \<open>req_user\<close> is the id of \<^verbatim>\<open>req.user\<close>, \<open>None\<close>
  when \<^verbatim>\<open>req.isAuthenticated()\<close> is false; \<open>req_id\<close> is \<^verbatim>\<open>parseInt(req.params.id)\<close>,
  \<open>None\<close> when that is \<^verbatim>\<open>NaN\<close>. The handlers are modelled over the in-memory store.
  The zod schemas \<^verbatim>\<open>insertLikeSchema\<close> and \<^verbatim>\<open>insertFollowSchema\<close> belong to the
  validation library: whether \<^verbatim>\<open>parse\<close> accepts the object is a parameter, and a
  \<^verbatim>\<open>ZodError\<close> is answered with status 400.
\<close>

record request =
  req_user :: "int option"
  req_id :: "int option"

datatype body = Text string | Json_like like | Json_follow follow | Json_errors

datatype response = Response (status: nat) (body: body)

definition post_posts_id_likes ::
  "(insert_like \<Rightarrow> bool) \<Rightarrow> mem_storage \<Rightarrow> request \<Rightarrow> int \<Rightarrow> response \<times> mem_storage" where
  "post_posts_id_likes insertLikeSchema s req now =
    (case req_user req of
       None \<Rightarrow> (Response 401 (Text ''Unauthorized''), s)
     | Some me \<Rightarrow>
        (case req_id req of
           None \<Rightarrow> (Response 400 (Text ''Invalid post ID''), s)
         | Some postId \<Rightarrow>
            (if getLike s postId me \<noteq> None
             then (Response 409 (Text ''Post already liked''), s)
             else (let validatedData = \<lparr>il_postId = postId, il_userId = me\<rparr>
                   in if insertLikeSchema validatedData
                      then (let r = createLike s validatedData now
                            in (Response 201 (Json_like (fst r)), snd r))
                      else (Response 400 Json_errors, s)))))"

definition post_users_id_follow ::
  "(insert_follow \<Rightarrow> bool) \<Rightarrow> mem_storage \<Rightarrow> request \<Rightarrow> int \<Rightarrow> response \<times> mem_storage" where
  "post_users_id_follow insertFollowSchema s req now =
    (case req_user req of
       None \<Rightarrow> (Response 401 (Text ''Unauthorized''), s)
     | Some me \<Rightarrow>
        (case req_id req of
           None \<Rightarrow> (Response 400 (Text ''Invalid user ID''), s)
         | Some following \<Rightarrow>
            (if following = me
             then (Response 400 (Text ''Cannot follow yourself''), s)
             else if getFollow s me following \<noteq> None
             then (Response 409 (Text ''Already following''), s)
             else (let validatedData = \<lparr>if_followerId = me, if_followingId = following\<rparr>
                   in if insertFollowSchema validatedData
                      then (let r = createFollow s validatedData now
                            in (Response 201 (Json_follow (fst r)), snd r))
                      else (Response 400 Json_errors, s)))))"

section \<open>The relational store (DatabaseStorage)\<close>

text \<open>
  The queries of \<^verbatim>\<open>DatabaseStorage\<close>, read as relational algebra on tables that are
  lists of rows: \<^verbatim>\<open>where\<close> is a filter, \<^verbatim>\<open>innerJoin\<close> pairs each row with the rows
  of the other table that satisfy the join condition, \<^verbatim>\<open>orderBy\<close> is a sort,
  \<^verbatim>\<open>delete ... where\<close> keeps the rows that do not match, and \<^verbatim>\<open>const [x] = ...\<close> takes
  the first row or \<^verbatim>\<open>undefined\<close>. Where SQL leaves the order of rows open, the order
  of the list stands for it and no statement below depends on it.
\<close>

record database =
  db_users :: "user list"
  db_posts :: "post list"
  db_comments :: "comment list"
  db_likes :: "like list"
  db_follows :: "follow list"

definition first_row :: "'a list \<Rightarrow> 'a option" where
  "first_row rows = (case rows of [] \<Rightarrow> None | x # _ \<Rightarrow> Some x)"

definition db_getUser :: "database \<Rightarrow> int \<Rightarrow> user option" where
  "db_getUser d i = first_row (filter (\<lambda>u. u_id u = i) (db_users d))"

definition db_getCommentsByPost :: "database \<Rightarrow> int \<Rightarrow> comment_with_user list" where
  "db_getCommentsByPost d postId =
    map (\<lambda>c. \<lparr>c_id = c_id c, c_postId = c_postId c, c_userId = c_userId c,
               c_content = c_content c, c_createdAt = c_createdAt c,
               cw_user = db_getUser d (c_userId c)\<rparr>)
      (sort_key c_createdAt (filter (\<lambda>c. c_postId c = postId) (db_comments d)))"

definition db_getLikesByPost :: "database \<Rightarrow> int \<Rightarrow> like list" where
  "db_getLikesByPost d postId = filter (\<lambda>l. l_postId l = postId) (db_likes d)"

definition db_getLike :: "database \<Rightarrow> int \<Rightarrow> int \<Rightarrow> like option" where
  "db_getLike d postId userId =
    first_row (filter (\<lambda>l. l_postId l = postId \<and> l_userId l = userId) (db_likes d))"

definition db_enrichPost :: "database \<Rightarrow> int option \<Rightarrow> post \<Rightarrow> post_with_user" where
  "db_enrichPost d viewerId p =
    (let u = db_getUser d (p_userId p);
         ls = db_getLikesByPost d (p_id p);
         commentsResult = db_getCommentsByPost d (p_id p);
         liked = (if truthy_number viewerId
                  then Some (db_getLike d (p_id p) (the viewerId) \<noteq> None)
                  else None)
     in \<lparr>p_id = p_id p, p_userId = p_userId p, p_content = p_content p,
         imageUrl = imageUrl p, p_createdAt = p_createdAt p,
         pw_user = u, likeCount = length ls, commentCount = length commentsResult,
         isLiked = liked\<rparr>)"

definition db_enrichPosts :: "database \<Rightarrow> post list \<Rightarrow> int option \<Rightarrow> post_with_user list" where
  "db_enrichPosts d ps viewerId = map (db_enrichPost d viewerId) ps"

definition db_getPost :: "database \<Rightarrow> int \<Rightarrow> post_with_user option" where
  "db_getPost d i =
    (case first_row (filter (\<lambda>p. p_id p = i) (db_posts d)) of
       None \<Rightarrow> None
     | Some p \<Rightarrow> first_row (db_enrichPosts d [p] None))"

definition db_deletePost :: "database \<Rightarrow> int \<Rightarrow> bool \<times> database" where
  "db_deletePost d i =
    (let d1 = d\<lparr>db_comments := filter (\<lambda>c. c_postId c \<noteq> i) (db_comments d)\<rparr>;
         d2 = d1\<lparr>db_likes := filter (\<lambda>l. l_postId l \<noteq> i) (db_likes d1)\<rparr>;
         count = length (filter (\<lambda>p. p_id p = i) (db_posts d2))
     in (count > 0, d2\<lparr>db_posts := filter (\<lambda>p. p_id p \<noteq> i) (db_posts d2)\<rparr>))"

definition db_getFollowers :: "database \<Rightarrow> int \<Rightarrow> user list" where
  "db_getFollowers d userId =
    concat (map (\<lambda>f. filter (\<lambda>u. followerId f = u_id u) (db_users d))
              (filter (\<lambda>f. followingId f = userId) (db_follows d)))"

definition db_getFollowing :: "database \<Rightarrow> int \<Rightarrow> user list" where
  "db_getFollowing d userId =
    concat (map (\<lambda>f. filter (\<lambda>u. followingId f = u_id u) (db_users d))
              (filter (\<lambda>f. followerId f = userId) (db_follows d)))"

definition db_getFeedForUser :: "database \<Rightarrow> int \<Rightarrow> post_with_user list" where
  "db_getFeedForUser d userId =
    (let followingIds = map u_id (db_getFollowing d userId);
         feedPosts = sort_newest_first
           (filter (\<lambda>p. p_userId p = userId \<or> p_userId p \<in> set followingIds) (db_posts d))
     in db_enrichPosts d feedPosts (Some userId))"

text \<open>
  \<^verbatim>\<open>like(column, `%${query}%`)\<close> is the \<^verbatim>\<open>LIKE\<close> operator of PostgreSQL, which is not
  code of this repository; it is modelled after its documentation. The pattern has
  to match the whole string, character by character and case-sensitively; \<^verbatim>\<open>%\<close>
  stands for any run of characters, \<^verbatim>\<open>_\<close> for any one character, and a backslash
  makes the next character of the pattern literal. (A pattern that ends in a lone
  backslash is an error in PostgreSQL; a pattern \<^verbatim>\<open>%...%\<close> never does, and the model
  answers \<open>False\<close>.)
\<close>

fun sql_like :: "string \<Rightarrow> string \<Rightarrow> bool" where
  "sql_like t [] = (t = [])"
| "sql_like t (p # ps) =
    (if p = CHR ''%'' then
       (sql_like t ps \<or> (case t of [] \<Rightarrow> False | c # cs \<Rightarrow> sql_like cs (p # ps)))
     else if p = CHR ''_'' then
       (case t of [] \<Rightarrow> False | c # cs \<Rightarrow> sql_like cs ps)
     else if p = CHR 0x5C then
       (case ps of
          [] \<Rightarrow> False
        | q # qs \<Rightarrow> (case t of [] \<Rightarrow> False | c # cs \<Rightarrow> c = q \<and> sql_like cs qs))
     else (case t of [] \<Rightarrow> False | c # cs \<Rightarrow> c = p \<and> sql_like cs ps))"

definition db_searchUsers :: "database \<Rightarrow> string \<Rightarrow> user list" where
  "db_searchUsers d query =
    (if query = [] then []
     else filter (\<lambda>u. sql_like (username u) (''%'' @ query @ ''%'') \<or>
                      sql_like (displayName u) (''%'' @ query @ ''%''))
            (db_users d))"

section \<open>Sequences of store operations\<close>

text \<open>
  The operations of \<^verbatim>\<open>MemStorage\<close> that write, as data, so that a process lifetime is
  a list of them run from the constructor's state. Running one reports the
  identity its create assigned, with the kind of the entity.
\<close>

datatype entity_kind = User_kind | Post_kind | Comment_kind | Like_kind | Follow_kind

datatype operation =
    CreateUser insert_user int nat
  | UpdateUser int partial_insert_user
  | CreatePost insert_post int
  | UpdatePost int partial_insert_post
  | DeletePost int
  | CreateComment insert_comment int
  | DeleteComment int
  | CreateLike insert_like int
  | DeleteLike int int
  | CreateFollow insert_follow int
  | DeleteFollow int int

fun exec :: "operation \<Rightarrow> mem_storage \<Rightarrow> (entity_kind \<times> int) list \<times> mem_storage" where
  "exec (CreateUser d now r) s = (let x = createUser s d now r in ([(User_kind, u_id (fst x))], snd x))"
| "exec (UpdateUser i d) s = ([], snd (updateUser s i d))"
| "exec (CreatePost d now) s = (let x = createPost s d now in ([(Post_kind, p_id (fst x))], snd x))"
| "exec (UpdatePost i d) s = ([], snd (updatePost s i d))"
| "exec (DeletePost i) s = ([], snd (deletePost s i))"
| "exec (CreateComment d now) s =
    (let x = createComment s d now in ([(Comment_kind, c_id (fst x))], snd x))"
| "exec (DeleteComment i) s = ([], snd (deleteComment s i))"
| "exec (CreateLike d now) s = (let x = createLike s d now in ([(Like_kind, l_id (fst x))], snd x))"
| "exec (DeleteLike a b) s = ([], snd (deleteLike s a b))"
| "exec (CreateFollow d now) s =
    (let x = createFollow s d now in ([(Follow_kind, f_id (fst x))], snd x))"
| "exec (DeleteFollow a b) s = ([], snd (deleteFollow s a b))"

fun run :: "operation list \<Rightarrow> mem_storage \<Rightarrow> (entity_kind \<times> int) list \<times> mem_storage" where
  "run [] s = ([], s)"
| "run (x # xs) s =
    (let a = exec x s; b = run xs (snd a) in (fst a @ fst b, snd b))"

definition assigned :: "entity_kind \<Rightarrow> (entity_kind \<times> int) list \<Rightarrow> int list" where
  "assigned k es = map snd (filter (\<lambda>e. fst e = k) es)"

definition counter :: "entity_kind \<Rightarrow> mem_storage \<Rightarrow> int" where
  "counter k s =
    (case k of User_kind \<Rightarrow> currentUserId s | Post_kind \<Rightarrow> currentPostId s
     | Comment_kind \<Rightarrow> currentCommentId s | Like_kind \<Rightarrow> currentLikeId s
     | Follow_kind \<Rightarrow> currentFollowId s)"

section \<open>Invariant of the in-memory store\<close>

text \<open>
  What the constructor establishes and every operation keeps: each map is keyed by
  the id of its value, every key is positive and below the counter of its kind, and
  the keys stand in increasing order (the order of insertion is the order of the
  ids).
\<close>

definition keyed :: "('v \<Rightarrow> int) \<Rightarrow> 'v js_map \<Rightarrow> bool" where
  "keyed f m = list_all (\<lambda>kv. f (snd kv) = fst kv) m"

definition map_inv :: "('v \<Rightarrow> int) \<Rightarrow> int \<Rightarrow> 'v js_map \<Rightarrow> bool" where
  "map_inv f c m =
    (keyed f m \<and> 0 < c \<and> list_all (\<lambda>kv. 0 < fst kv \<and> fst kv < c) m \<and>
     sorted_wrt (<) (map fst m))"

definition store_inv :: "mem_storage \<Rightarrow> bool" where
  "store_inv s =
    (map_inv u_id (currentUserId s) (users s) \<and>
     map_inv p_id (currentPostId s) (posts s) \<and>
     map_inv c_id (currentCommentId s) (comments s) \<and>
     map_inv l_id (currentLikeId s) (likes s) \<and>
     map_inv f_id (currentFollowId s) (follows s))"

section \<open>Example states\<close>

text \<open>The tables that hold the rows of an in-memory store.\<close>

definition database_of :: "mem_storage \<Rightarrow> database" where
  "database_of s =
    \<lparr>db_users = Map_values (users s), db_posts = Map_values (posts s),
     db_comments = Map_values (comments s), db_likes = Map_values (likes s),
     db_follows = Map_values (follows s)\<rparr>"

text \<open>
  A store reached from the constructor: three users, three posts (two of them
  created at the same time), a comment and a like on post 1, a comment and a like
  that name a post 7 which does not exist, and user 1 following user 2.
\<close>

definition example_ops :: "operation list" where
  "example_ops =
    [CreateUser \<lparr>iu_username = ''alice'', iu_password = ''pw1'', iu_displayName = ''Alice A'',
                 iu_bio = None, iu_avatarUrl = Some ''a.png''\<rparr> 10 0,
     CreateUser \<lparr>iu_username = ''bob'', iu_password = ''pw2'', iu_displayName = ''Bob B'',
                 iu_bio = Some ''hi'', iu_avatarUrl = Some ''b.png''\<rparr> 20 0,
     CreateUser \<lparr>iu_username = ''alison'', iu_password = ''pw3'', iu_displayName = ''Alison C'',
                 iu_bio = None, iu_avatarUrl = Some ''c.png''\<rparr> 30 0,
     CreatePost \<lparr>ip_userId = 2, ip_content = ''first'', ip_imageUrl = None\<rparr> 100,
     CreatePost \<lparr>ip_userId = 1, ip_content = ''second'', ip_imageUrl = None\<rparr> 100,
     CreatePost \<lparr>ip_userId = 3, ip_content = ''third'', ip_imageUrl = None\<rparr> 200,
     CreateComment \<lparr>ic_postId = 1, ic_userId = 1, ic_content = ''nice''\<rparr> 110,
     CreateComment \<lparr>ic_postId = 7, ic_userId = 1, ic_content = ''lost''\<rparr> 120,
     CreateLike \<lparr>il_postId = 1, il_userId = 1\<rparr> 130,
     CreateLike \<lparr>il_postId = 7, il_userId = 2\<rparr> 140,
     CreateFollow \<lparr>if_followerId = 1, if_followingId = 2\<rparr> 150]"

definition example_store :: mem_storage where
  "example_store = snd (run example_ops MemStorage)"

text \<open>
  The same store after two more follows that name a user 9 who was never created:
  user 1 follows 9, and 9 follows user 1. \<^verbatim>\<open>createFollow\<close> checks neither id.
\<close>

definition dangling_ops :: "operation list" where
  "dangling_ops =
    example_ops @
    [CreateFollow \<lparr>if_followerId = 1, if_followingId = 9\<rparr> 160,
     CreateFollow \<lparr>if_followerId = 9, if_followingId = 1\<rparr> 170]"

definition dangling_store :: mem_storage where
  "dangling_store = snd (run dangling_ops MemStorage)"

section \<open>The order of a feed\<close>

text \<open>
  The order the specification asks of a feed, between a post and a later one in the
  sequence: the newer creation time first, and for equal times the smaller id first.
\<close>

definition newer_first :: "'a post_scheme \<Rightarrow> 'a post_scheme \<Rightarrow> bool" where
  "newer_first a b =
    (p_createdAt b < p_createdAt a \<or> (p_createdAt a = p_createdAt b \<and> p_id a < p_id b))"

section \<open>Auxiliary facts\<close>

subsection \<open>Maps\<close>

lemma update_fresh: "k \<notin> fst ` set m \<Longrightarrow> AList.update k v m = m @ [(k, v)]"
  by (induction m) auto

lemma fold_Map_delete:
  "fold (\<lambda>c m. snd (Map_delete (g c) m)) cs m = filter (\<lambda>kv. fst kv \<notin> g ` set cs) m"
proof (induction cs arbitrary: m)
  case Nil
  then show ?case by simp
next
  case (Cons c cs)
  have "AList.delete (g c) m = filter (\<lambda>kv. fst kv \<noteq> g c) m"
    by (induction m) auto
  then show ?case using Cons by (simp add: Map_delete_def conj_commute)
qed

lemma keyed_filter: "keyed f m \<Longrightarrow> keyed f (filter P m)"
  by (simp add: keyed_def list_all_iff)

lemma map_inv_filter: "map_inv f c m \<Longrightarrow> map_inv f c (filter P m)"
  unfolding map_inv_def keyed_def list_all_iff
  by (auto simp: sorted_wrt_map sorted_wrt_filter)

lemma map_inv_delete: "map_inv f c m \<Longrightarrow> map_inv f c (snd (Map_delete k m))"
  by (simp add: Map_delete_def AList.delete_eq case_prod_unfold map_inv_filter)

lemma map_inv_set_fresh:
  assumes "map_inv f c m" and "f v = c"
  shows "map_inv f (c + 1) (Map_set c v m)"
proof -
  have fresh: "c \<notin> fst ` set m"
    using assms(1) by (auto simp: map_inv_def list_all_iff)
  have "Map_set c v m = m @ [(c, v)]"
    by (simp add: Map_set_def update_fresh [OF fresh])
  then show ?thesis
    using assms
    by (auto simp: map_inv_def keyed_def list_all_iff sorted_wrt_append)
qed

lemma map_inv_set_present:
  assumes "map_inv f c m" and "map_of m k = Some v" and "f v' = f v"
  shows "map_inv f c (Map_set k v' m)"
proof -
  have kv: "(k, v) \<in> set m" using assms(2) by (rule map_of_SomeD)
  then have fk: "f v = k" using assms(1) by (auto simp: map_inv_def keyed_def list_all_iff)
  have kc: "0 < k \<and> k < c" using kv assms(1) by (auto simp: map_inv_def list_all_iff)
  have keys: "map fst (AList.update k v' m) = map fst m"
    using kv by (simp add: AList.update_keys image_iff) force
  have sub: "set (AList.update k v' m) \<subseteq> insert (k, v') (set m)"
    by (induction m) auto
  show ?thesis
    using assms(1) assms(3) fk kc keys sub
    unfolding map_inv_def keyed_def list_all_iff Map_set_def
    by auto
qed

subsection \<open>The invariant holds in every reachable state\<close>

lemma store_inv_MemStorage: "store_inv MemStorage"
  by (simp add: store_inv_def MemStorage_def map_inv_def keyed_def)

lemma store_inv_createUser: "store_inv s \<Longrightarrow> store_inv (snd (createUser s d now r))"
  by (simp add: store_inv_def createUser_def Let_def map_inv_set_fresh)

lemma store_inv_createPost: "store_inv s \<Longrightarrow> store_inv (snd (createPost s d now))"
  by (simp add: store_inv_def createPost_def Let_def map_inv_set_fresh)

lemma store_inv_createComment: "store_inv s \<Longrightarrow> store_inv (snd (createComment s d now))"
  by (simp add: store_inv_def createComment_def Let_def map_inv_set_fresh)

lemma store_inv_createLike: "store_inv s \<Longrightarrow> store_inv (snd (createLike s d now))"
  by (simp add: store_inv_def createLike_def Let_def map_inv_set_fresh)

lemma store_inv_createFollow: "store_inv s \<Longrightarrow> store_inv (snd (createFollow s d now))"
  by (simp add: store_inv_def createFollow_def Let_def map_inv_set_fresh)

lemma store_inv_updateUser: "store_inv s \<Longrightarrow> store_inv (snd (updateUser s i d))"
  by (auto simp: store_inv_def updateUser_def getUser_def Map_get_def Let_def merge_user_def
      split: option.splits intro!: map_inv_set_present)

lemma store_inv_updatePost: "store_inv s \<Longrightarrow> store_inv (snd (updatePost s i d))"
  by (auto simp: store_inv_def updatePost_def Map_get_def Let_def merge_post_def
      split: option.splits intro!: map_inv_set_present)

lemma map_inv_fold_delete:
  "map_inv f c m \<Longrightarrow> map_inv f c (fold (\<lambda>x m. snd (Map_delete (g x) m)) xs m)"
  by (simp add: fold_Map_delete map_inv_filter)

lemma store_inv_deletePost: "store_inv s \<Longrightarrow> store_inv (snd (deletePost s i))"
  by (simp add: store_inv_def deletePost_def Let_def map_inv_fold_delete map_inv_delete)

lemma store_inv_deleteComment: "store_inv s \<Longrightarrow> store_inv (snd (deleteComment s i))"
  by (simp add: store_inv_def deleteComment_def Let_def map_inv_delete)

lemma store_inv_deleteLike: "store_inv s \<Longrightarrow> store_inv (snd (deleteLike s a b))"
  by (simp add: store_inv_def deleteLike_def Let_def map_inv_delete split: option.splits)

lemma store_inv_deleteFollow: "store_inv s \<Longrightarrow> store_inv (snd (deleteFollow s a b))"
  by (simp add: store_inv_def deleteFollow_def Let_def map_inv_delete split: option.splits)

lemma store_inv_exec: "store_inv s \<Longrightarrow> store_inv (snd (exec x s))"
  by (cases x)
    (simp_all add: Let_def store_inv_createUser store_inv_createPost store_inv_createComment
      store_inv_createLike store_inv_createFollow store_inv_updateUser store_inv_updatePost
      store_inv_deletePost store_inv_deleteComment store_inv_deleteLike store_inv_deleteFollow)

lemma store_inv_run: "store_inv s \<Longrightarrow> store_inv (snd (run xs s))"
  by (induction xs arbitrary: s) (simp_all add: Let_def store_inv_exec)

lemma store_inv_reachable: "store_inv (snd (run xs MemStorage))"
  by (rule store_inv_run [OF store_inv_MemStorage])

subsection \<open>Counters\<close>

lemma exec_assigned:
  "assigned k (fst (exec x s)) = [] \<and> counter k (snd (exec x s)) = counter k s \<or>
   assigned k (fst (exec x s)) = [counter k s] \<and> counter k (snd (exec x s)) = counter k s + 1"
  by (cases x; cases k)
    (simp_all add: assigned_def counter_def Let_def createUser_def createPost_def
      createComment_def createLike_def createFollow_def updateUser_def updatePost_def
      deletePost_def deleteComment_def deleteLike_def deleteFollow_def
      split: option.splits)

lemma assigned_append: "assigned k (xs @ ys) = assigned k xs @ assigned k ys"
  by (simp add: assigned_def)

lemma run_assigned_bounds:
  "counter k s \<le> counter k (snd (run xs s)) \<and>
   (\<forall>i \<in> set (assigned k (fst (run xs s))). counter k s \<le> i \<and> i < counter k (snd (run xs s)))"
proof (induction xs arbitrary: s)
  case Nil
  then show ?case by (simp add: assigned_def)
next
  case (Cons x xs)
  let ?s1 = "snd (exec x s)"
  note ih = Cons.IH [of ?s1]
  from exec_assigned [of k x s] ih show ?case
    by (auto simp: Let_def assigned_append)
qed

lemma run_assigned_sorted: "sorted_wrt (<) (assigned k (fst (run xs s)))"
proof (induction xs arbitrary: s)
  case Nil
  then show ?case by (simp add: assigned_def)
next
  case (Cons x xs)
  let ?s1 = "snd (exec x s)"
  from exec_assigned [of k x s] Cons.IH [of ?s1] run_assigned_bounds [of k ?s1 xs]
  show ?case
    by (auto simp: Let_def assigned_append sorted_wrt_append)
qed

subsection \<open>The cascade of deletePost\<close>

lemma cascade_values:
  assumes "map_inv f c m"
  shows "Map_values (fold (\<lambda>x m. snd (Map_delete (f x) m)) (filter P (Map_values m)) m) =
         filter (\<lambda>x. \<not> P x) (Map_values m)"
proof -
  have keyed: "\<And>k x. (k, x) \<in> set m \<Longrightarrow> f x = k"
    using assms by (auto simp: map_inv_def keyed_def list_all_iff)
  have "sorted_wrt (<) (map fst m)"
    using assms by (simp add: map_inv_def)
  then have dist: "distinct (map fst m)"
    by (simp add: strict_sorted_iff)
  have same: "\<And>k x y. (k, x) \<in> set m \<Longrightarrow> (k, y) \<in> set m \<Longrightarrow> x = y"
    using dist by (rule eq_key_imp_eq_value)
  have "fst kv \<notin> f ` set (filter P (Map_values m)) \<longleftrightarrow> \<not> P (snd kv)" if "kv \<in> set m" for kv
  proof -
    obtain k x where kv: "kv = (k, x)" by (cases kv)
    show ?thesis
    proof
      assume a: "fst kv \<notin> f ` set (filter P (Map_values m))"
      show "\<not> P (snd kv)"
      proof
        assume "P (snd kv)"
        then have "x \<in> set (filter P (Map_values m))"
          using that kv by (force simp: Map_values_def)
        then have "f x \<in> f ` set (filter P (Map_values m))" by (rule imageI)
        then show False using a keyed that kv by auto
      qed
    next
      assume n: "\<not> P (snd kv)"
      show "fst kv \<notin> f ` set (filter P (Map_values m))"
      proof
        assume "fst kv \<in> f ` set (filter P (Map_values m))"
        then obtain y where y: "y \<in> set (Map_values m)" "P y" "f y = k"
          using kv by auto
        then obtain k' where "(k', y) \<in> set m" by (auto simp: Map_values_def)
        then have "(k, y) \<in> set m" using keyed y(3) by auto
        then have "y = x" using same that kv by blast
        then show False using n y(2) kv by simp
      qed
    qed
  qed
  then have "filter (\<lambda>kv. fst kv \<notin> f ` set (filter P (Map_values m))) m =
             filter (\<lambda>kv. \<not> P (snd kv)) m"
    by (intro filter_cong) auto
  then show ?thesis
    by (simp add: fold_Map_delete Map_values_def filter_map comp_def)
qed

lemma deletePost_comments:
  "store_inv s \<Longrightarrow>
   Map_values (comments (snd (deletePost s i))) =
     filter (\<lambda>c. c_postId c \<noteq> i) (Map_values (comments s))"
  using cascade_values [of c_id "currentCommentId s" "comments s" "\<lambda>c. c_postId c = i"]
  by (simp add: deletePost_def Let_def store_inv_def)

lemma deletePost_likes:
  "store_inv s \<Longrightarrow>
   Map_values (likes (snd (deletePost s i))) =
     filter (\<lambda>l. l_postId l \<noteq> i) (Map_values (likes s))"
  using cascade_values [of l_id "currentLikeId s" "likes s" "\<lambda>l. l_postId l = i"]
  by (simp add: deletePost_def Let_def store_inv_def)

lemma deletePost_posts:
  "posts (snd (deletePost s i)) = AList.delete i (posts s)"
  "fst (deletePost s i) = (Map_get (posts s) i \<noteq> None)"
  "users (snd (deletePost s i)) = users s"
  by (simp_all add: deletePost_def Let_def Map_delete_def Map_get_def)

lemma db_deletePost_reads:
  "db_getLikesByPost (snd (db_deletePost d i)) i = []"
  "db_getCommentsByPost (snd (db_deletePost d i)) i = []"
  "db_getPost (snd (db_deletePost d i)) i = None"
  by (simp_all add: db_deletePost_def db_getLikesByPost_def db_getCommentsByPost_def
      db_getPost_def Let_def first_row_def)

subsection \<open>The example stores\<close>

lemma example_store_eq:
  "example_store =
    \<lparr>users =
       [(1, \<lparr>u_id = 1, username = ''alice'', password = ''pw1'', displayName = ''Alice A'',
             bio = None, avatarUrl = Some ''a.png'', u_createdAt = 10\<rparr>),
        (2, \<lparr>u_id = 2, username = ''bob'', password = ''pw2'', displayName = ''Bob B'',
             bio = Some ''hi'', avatarUrl = Some ''b.png'', u_createdAt = 20\<rparr>),
        (3, \<lparr>u_id = 3, username = ''alison'', password = ''pw3'', displayName = ''Alison C'',
             bio = None, avatarUrl = Some ''c.png'', u_createdAt = 30\<rparr>)],
     posts =
       [(1, \<lparr>p_id = 1, p_userId = 2, p_content = ''first'', imageUrl = None, p_createdAt = 100\<rparr>),
        (2, \<lparr>p_id = 2, p_userId = 1, p_content = ''second'', imageUrl = None, p_createdAt = 100\<rparr>),
        (3, \<lparr>p_id = 3, p_userId = 3, p_content = ''third'', imageUrl = None, p_createdAt = 200\<rparr>)],
     comments =
       [(1, \<lparr>c_id = 1, c_postId = 1, c_userId = 1, c_content = ''nice'', c_createdAt = 110\<rparr>),
        (2, \<lparr>c_id = 2, c_postId = 7, c_userId = 1, c_content = ''lost'', c_createdAt = 120\<rparr>)],
     likes =
       [(1, \<lparr>l_id = 1, l_postId = 1, l_userId = 1, l_createdAt = 130\<rparr>),
        (2, \<lparr>l_id = 2, l_postId = 7, l_userId = 2, l_createdAt = 140\<rparr>)],
     follows =
       [(1, \<lparr>f_id = 1, followerId = 1, followingId = 2, f_createdAt = 150\<rparr>)],
     currentUserId = 4, currentPostId = 4, currentCommentId = 3, currentLikeId = 3,
     currentFollowId = 2\<rparr>"
  by (simp add: example_store_def example_ops_def MemStorage_def Let_def createUser_def
      createPost_def createComment_def createLike_def createFollow_def Map_set_def
      truthy_string_def)

lemma store_inv_example: "store_inv example_store"
  unfolding example_store_def by (rule store_inv_reachable)

lemma run_append: "snd (run (xs @ ys) s) = snd (run ys (snd (run xs s)))"
  by (induction xs arbitrary: s) (simp_all add: Let_def)

lemma dangling_store_eq:
  "dangling_store =
    example_store
      \<lparr>follows :=
         [(1, \<lparr>f_id = 1, followerId = 1, followingId = 2, f_createdAt = 150\<rparr>),
          (2, \<lparr>f_id = 2, followerId = 1, followingId = 9, f_createdAt = 160\<rparr>),
          (3, \<lparr>f_id = 3, followerId = 9, followingId = 1, f_createdAt = 170\<rparr>)],
       currentFollowId := 4\<rparr>"
  unfolding dangling_store_def dangling_ops_def run_append example_store_def [symmetric]
  by (simp add: example_store_eq Let_def createFollow_def Map_set_def)

subsection \<open>Reads that search a map\<close>

lemma find_None_list_ex: "(find P xs = None) = (\<not> list_ex P xs)"
  by (auto simp: find_None_iff list_ex_iff)

lemma find_Map_set_new:
  assumes "find P (Map_values m) = None" and "P v"
  shows "find P (Map_values (Map_set k v m)) = Some v"
  using assms
  by (induction m) (auto simp: Map_values_def Map_set_def split: if_splits)

lemma getUser_keyed: "store_inv s \<Longrightarrow> getUser s k = Some x \<Longrightarrow> u_id x = k"
  by (auto simp: store_inv_def map_inv_def keyed_def list_all_iff getUser_def Map_get_def
      dest!: map_of_SomeD)


subsection \<open>Sorting newest first\<close>

lemma newer_first_eq:
  "newer_first =
    (\<lambda>a b. p_createdAt b < p_createdAt a \<or> (p_createdAt a = p_createdAt b \<and> p_id a < p_id b))"
  by (intro ext) (simp add: newer_first_def)

lemma insort_key_lex:
  fixes f :: "'a \<Rightarrow> int"
  assumes "sorted_wrt (\<lambda>a b. f a < f b \<or> (f a = f b \<and> R a b)) ys"
    and "\<forall>y \<in> set ys. R x y"
  shows "sorted_wrt (\<lambda>a b. f a < f b \<or> (f a = f b \<and> R a b)) (insort_key f x ys)"
  using assms
proof (induction ys)
  case Nil
  then show ?case by simp
next
  case (Cons y ys)
  show ?case
  proof (cases "f x \<le> f y")
    case True
    then show ?thesis using Cons.prems by auto
  next
    case False
    then show ?thesis using Cons by (auto simp: set_insort_key)
  qed
qed

lemma sort_key_lex:
  fixes f :: "'a \<Rightarrow> int"
  assumes "sorted_wrt R xs"
  shows "sorted_wrt (\<lambda>a b. f a < f b \<or> (f a = f b \<and> R a b)) (sort_key f xs)"
  using assms
  by (induction xs) (auto intro!: insort_key_lex)

lemma posts_ids_increasing:
  assumes "store_inv s"
  shows "sorted_wrt (\<lambda>a b. p_id a < p_id b) (Map_values (posts s))"
proof -
  have inv: "map_inv p_id (currentPostId s) (posts s)"
    using assms by (simp add: store_inv_def)
  then have "map p_id (Map_values (posts s)) = map fst (posts s)"
    by (auto simp: map_inv_def keyed_def list_all_iff Map_values_def)
  moreover have "sorted_wrt (<) (map fst (posts s))"
    using inv by (simp add: map_inv_def)
  ultimately have "sorted_wrt (<) (map p_id (Map_values (posts s)))" by simp
  then show ?thesis by (simp add: sorted_wrt_map)
qed

lemma sort_newest_first_sorted:
  assumes "sorted_wrt (\<lambda>a b. p_id a < p_id b) ps"
  shows "sorted_wrt newer_first (sort_newest_first ps)"
proof -
  have "sorted_wrt (\<lambda>a b. - p_createdAt a < - p_createdAt b \<or>
          (- p_createdAt a = - p_createdAt b \<and> p_id a < p_id b)) (sort_key (\<lambda>p. - p_createdAt p) ps)"
    by (rule sort_key_lex [OF assms])
  then show ?thesis
    by (simp add: sort_newest_first_def newer_first_eq)
qed

lemma enrichPosts_sorted:
  "sorted_wrt newer_first ps \<Longrightarrow> sorted_wrt newer_first (enrichPosts s ps v)"
  by (simp add: enrichPosts_def sorted_wrt_map newer_first_eq enrichPost_def Let_def)

lemma enrichPosts_ids_at:
  "map p_id (filter (\<lambda>p. p_createdAt p = t) (enrichPosts s ps v)) =
   map p_id (filter (\<lambda>p. p_createdAt p = t) ps)"
  by (induction ps) (simp_all add: enrichPosts_def enrichPost_def Let_def)

lemma sort_newest_first_stable:
  "filter (\<lambda>p. p_createdAt p = t) (sort_newest_first ps) = filter (\<lambda>p. p_createdAt p = t) ps"
  using sort_key_stable [of "\<lambda>p. - p_createdAt p" "- t" ps]
  by (simp add: sort_newest_first_def)

subsection \<open>Members of the personal feed\<close>

lemma getFeedForUser_Inr:
  assumes "getFeedForUser s u = Inr r"
  obtains followingIds where "user_ids (getFollowing s u) = Inr followingIds"
    and "r = enrichPosts s (sort_newest_first
            (filter (\<lambda>p. p_userId p \<in> set followingIds \<or> p_userId p = u)
               (Map_values (posts s)))) (Some u)"
  using assms by (auto simp: getFeedForUser_def Let_def split: sum.splits)

lemma user_ids_total:
  "list_all (\<lambda>x. x \<noteq> None) us \<Longrightarrow> \<exists>is. user_ids us = Inr is"
  by (induction us rule: user_ids.induct) auto

lemma user_ids_undefined:
  "list_ex (\<lambda>x. x = None) us \<Longrightarrow> user_ids us = Inl TypeError"
  by (induction us rule: user_ids.induct) auto

lemma user_ids_map:
  assumes "user_ids (map g fs) = Inr is" and "\<And>f x. g f = Some x \<Longrightarrow> u_id x = h f"
  shows "is = map h fs"
  using assms
proof (induction fs arbitrary: "is")
  case Nil
  then show ?case by simp
next
  case (Cons f fs)
  then show ?case
    by (cases "g f"; cases "user_ids (map g fs)") auto
qed

lemma getFeedForUser_members:
  assumes "store_inv s" and "getFeedForUser s u = Inr r"
  shows "r = enrichPosts s (sort_newest_first
           (filter (\<lambda>p. list_ex (\<lambda>f. followerId f = u \<and> followingId f = p_userId p)
                           (Map_values (follows s)) \<or> p_userId p = u)
              (Map_values (posts s)))) (Some u)"
proof -
  from assms(2) obtain followingIds where
    ids: "user_ids (getFollowing s u) = Inr followingIds" and
    r: "r = enrichPosts s (sort_newest_first
            (filter (\<lambda>p. p_userId p \<in> set followingIds \<or> p_userId p = u)
               (Map_values (posts s)))) (Some u)"
    by (rule getFeedForUser_Inr)
  have "followingIds = map followingId (filter (\<lambda>f. followerId f = u) (Map_values (follows s)))"
    using ids getUser_keyed [OF assms(1)] unfolding getFollowing_def
    by (rule user_ids_map)
  then have "(a \<in> set followingIds) =
      list_ex (\<lambda>f. followerId f = u \<and> followingId f = a) (Map_values (follows s))" for a
    by (auto simp: list_ex_iff)
  then show ?thesis by (simp add: r)
qed

lemma db_getFollowing_set:
  "set (db_getFollowing d u) =
    {x \<in> set (db_users d). \<exists>f \<in> set (db_follows d). followerId f = u \<and> followingId f = u_id x}"
  by (auto simp: db_getFollowing_def)

lemma db_getFollowers_set:
  "set (db_getFollowers d u) =
    {x \<in> set (db_users d). \<exists>f \<in> set (db_follows d). followingId f = u \<and> followerId f = u_id x}"
  by (auto simp: db_getFollowers_def)

lemma db_getFeedForUser_members:
  assumes "\<forall>f \<in> set (db_follows d). \<exists>x \<in> set (db_users d). u_id x = followingId f"
  shows "db_getFeedForUser d u =
    db_enrichPosts d (sort_newest_first
      (filter (\<lambda>p. p_userId p = u \<or>
                 list_ex (\<lambda>f. followerId f = u \<and> followingId f = p_userId p) (db_follows d))
         (db_posts d))) (Some u)"
proof -
  have "(a \<in> set (map u_id (db_getFollowing d u))) =
      list_ex (\<lambda>f. followerId f = u \<and> followingId f = a) (db_follows d)" for a
  proof
    assume "a \<in> set (map u_id (db_getFollowing d u))"
    then obtain x where "x \<in> set (db_getFollowing d u)" "u_id x = a" by auto
    then show "list_ex (\<lambda>f. followerId f = u \<and> followingId f = a) (db_follows d)"
      by (auto simp: db_getFollowing_set list_ex_iff)
  next
    assume "list_ex (\<lambda>f. followerId f = u \<and> followingId f = a) (db_follows d)"
    then obtain f where f: "f \<in> set (db_follows d)" "followerId f = u" "followingId f = a"
      by (auto simp: list_ex_iff)
    with assms obtain x where x: "x \<in> set (db_users d)" "u_id x = a" by auto
    with f have "x \<in> set (db_getFollowing d u)"
      unfolding db_getFollowing_set by auto
    with x show "a \<in> set (map u_id (db_getFollowing d u))" by auto
  qed
  then show ?thesis by (simp add: db_getFeedForUser_def Let_def)
qed

subsection \<open>Search\<close>

lemma startsWith_iff: "startsWith t q \<longleftrightarrow> (\<exists>b. t = q @ b)"
  by (induction t q rule: startsWith.induct) auto

lemma includes_str_iff: "includes_str t q \<longleftrightarrow> (\<exists>a b. t = a @ q @ b)"
proof (induction t)
  case Nil
  then show ?case by auto
next
  case (Cons d ds)
  have "(\<exists>a b. d # ds = a @ q @ b) \<longleftrightarrow> (\<exists>b. d # ds = q @ b) \<or> (\<exists>a b. ds = a @ q @ b)"
  proof
    assume "\<exists>a b. d # ds = a @ q @ b"
    then obtain a b where ab: "d # ds = a @ q @ b" by blast
    show "(\<exists>b. d # ds = q @ b) \<or> (\<exists>a b. ds = a @ q @ b)"
    proof (cases a)
      case Nil
      then show ?thesis using ab by auto
    next
      case (Cons e es)
      then have "ds = es @ q @ b" using ab by simp
      then show ?thesis by blast
    qed
  next
    assume "(\<exists>b. d # ds = q @ b) \<or> (\<exists>a b. ds = a @ q @ b)"
    then show "\<exists>a b. d # ds = a @ q @ b"
    proof
      assume "\<exists>b. d # ds = q @ b"
      then obtain b where "d # ds = [] @ q @ b" by auto
      then show ?thesis by blast
    next
      assume "\<exists>a b. ds = a @ q @ b"
      then obtain a b where "d # ds = (d # a) @ q @ b" by auto
      then show ?thesis by blast
    qed
  qed
  then show ?case using Cons by (simp add: startsWith_iff)
qed

lemma searchUsers_substring:
  "searchUsers s q =
    (if q = [] then []
     else filter (\<lambda>u. (\<exists>a b. toLowerCase (username u) = a @ toLowerCase q @ b) \<or>
                      (\<exists>a b. toLowerCase (displayName u) = a @ toLowerCase q @ b))
            (Map_values (users s)))"
  by (simp add: searchUsers_def Let_def includes_str_iff)

lemma searchUsers_scenario:
  "map username (searchUsers example_store ''ali'') = [''alice'', ''alison'']"
  "searchUsers example_store '''' = []"
  by (simp_all add: searchUsers_def example_store_eq Map_values_def toLowerCase_def
      lower_char_def Let_def)

lemma db_searchUsers_scenario:
  "map username (db_searchUsers (database_of example_store) ''ali'') = [''alice'', ''alison'']"
  "db_searchUsers d '''' = []"
  by (simp_all add: db_searchUsers_def database_of_def example_store_eq Map_values_def)

subsection \<open>Viewer flags\<close>





section \<open>Claims\<close>



text \<open>
  C2. The claim asks that the feed of a user hold that user's own posts whatever the
  user follows. In the in-memory store, once user 1 follows an id that has no user,
  \<^verbatim>\<open>getFollowing\<close> yields an \<^verbatim>\<open>undefined\<close> entry and \<^verbatim>\<open>getFeedForUser(1)\<close> throws a
  \<^verbatim>\<open>TypeError\<close> in place of returning a feed with post 2, which user 1 wrote. (Where
  it does return, the feed holds exactly the posts of the user and of the users
  followed: lemma \<open>getFeedForUser_members\<close>.)
\<close>

theorem feed_dangling_follow:
  "map (map_option u_id) (getFollowing dangling_store 1) = [Some 2, None] \<and>
   getFeedForUser dangling_store 1 = Inl TypeError \<and>
   map p_id (filter (\<lambda>p. p_userId p = 1) (Map_values (posts dangling_store))) = [2]"
  by (simp add: dangling_store_eq example_store_eq getFeedForUser_def getFollowing_def
      getUser_def Map_get_def Map_values_def)

text \<open>
  C3. After \<^verbatim>\<open>deletePost(P)\<close>, \<^verbatim>\<open>getLikesByPost(P)\<close> and \<^verbatim>\<open>getCommentsByPost(P)\<close>
  return empty sequences and \<^verbatim>\<open>getPost(P)\<close> returns absent, in the in-memory store
  (in every state that satisfies its invariant, hence in every reachable state) and
  in the relational store (on any tables).
\<close>

theorem deletePost_cascade:
  assumes "store_inv s"
  shows "getLikesByPost (snd (deletePost s i)) i = [] \<and>
         getCommentsByPost (snd (deletePost s i)) i = [] \<and>
         getPost (snd (deletePost s i)) i = None \<and>
         db_getLikesByPost (snd (db_deletePost d i)) i = [] \<and>
         db_getCommentsByPost (snd (db_deletePost d i)) i = [] \<and>
         db_getPost (snd (db_deletePost d i)) i = None"
proof -
  have "getLikesByPost (snd (deletePost s i)) i = []"
    by (simp add: getLikesByPost_def deletePost_likes [OF assms])
  moreover have "getCommentsByPost (snd (deletePost s i)) i = []"
    by (simp add: getCommentsByPost_def deletePost_comments [OF assms])
  moreover have "getPost (snd (deletePost s i)) i = None"
    by (simp add: getPost_def deletePost_posts Map_get_def AList.delete_conv')
  ultimately show ?thesis by (simp add: db_deletePost_reads)
qed

theorem deletePost_cascade_witness:
  "store_inv example_store \<and>
   getLikesByPost example_store 1 \<noteq> [] \<and>
   getCommentsByPost example_store 1 \<noteq> [] \<and>
   getPost example_store 1 \<noteq> None \<and>
   getLikesByPost (snd (deletePost example_store 1)) 1 = [] \<and>
   getCommentsByPost (snd (deletePost example_store 1)) 1 = [] \<and>
   getPost (snd (deletePost example_store 1)) 1 = None \<and>
   db_getLikesByPost (snd (db_deletePost (database_of example_store) 1)) 1 = [] \<and>
   db_getCommentsByPost (snd (db_deletePost (database_of example_store) 1)) 1 = [] \<and>
   db_getPost (snd (db_deletePost (database_of example_store) 1)) 1 = None"
proof -
  have before: "getLikesByPost example_store 1 \<noteq> []" "getCommentsByPost example_store 1 \<noteq> []"
    "getPost example_store 1 \<noteq> None"
    by (simp_all add: example_store_eq getLikesByPost_def getCommentsByPost_def getPost_def
        Map_values_def Map_get_def enrichPosts_def)
  show ?thesis
    using deletePost_cascade [OF store_inv_example, of 1 "database_of example_store"]
      store_inv_example before
    by simp
qed

text \<open>
  C4. In every state that satisfies the invariant of the store, the discovery feed
  and every personal feed that is returned are ordered by creation time, newest
  first, and posts of equal time by increasing id; the posts of one creation time
  stand in the feed in the order in which they stand in the map (the order of
  insertion). A personal feed is returned whenever no followed user is missing.
  The reads are functions of the state, so two calls on one state agree.
\<close>

theorem feeds_newest_first:
  assumes "store_inv s"
  shows "sorted_wrt newer_first (getDiscoverFeed s) \<and>
         map p_id (filter (\<lambda>p. p_createdAt p = t) (getDiscoverFeed s)) =
           map p_id (filter (\<lambda>p. p_createdAt p = t) (Map_values (posts s))) \<and>
         (\<forall>r. getFeedForUser s u = Inr r \<longrightarrow>
            sorted_wrt newer_first r \<and>
            map p_id (filter (\<lambda>p. p_createdAt p = t) r) =
              map p_id (filter (\<lambda>p. p_createdAt p = t \<and> p_id p \<in> set (map p_id r))
                 (Map_values (posts s)))) \<and>
         (list_all (\<lambda>x. x \<noteq> None) (getFollowing s u) \<longrightarrow> (\<exists>r. getFeedForUser s u = Inr r))"
proof -
  note ids = posts_ids_increasing [OF assms]
  have d1: "sorted_wrt newer_first (getDiscoverFeed s)"
    unfolding getDiscoverFeed_def
    by (intro enrichPosts_sorted sort_newest_first_sorted ids)
  have d2: "map p_id (filter (\<lambda>p. p_createdAt p = t) (getDiscoverFeed s)) =
           map p_id (filter (\<lambda>p. p_createdAt p = t) (Map_values (posts s)))"
    by (simp add: getDiscoverFeed_def enrichPosts_ids_at sort_newest_first_stable)
  have f: "sorted_wrt newer_first r \<and>
            map p_id (filter (\<lambda>p. p_createdAt p = t) r) =
              map p_id (filter (\<lambda>p. p_createdAt p = t \<and> p_id p \<in> set (map p_id r))
                 (Map_values (posts s)))" if "getFeedForUser s u = Inr r" for r
  proof -
    from that obtain followingIds where
      r: "r = enrichPosts s (sort_newest_first
            (filter (\<lambda>p. p_userId p \<in> set followingIds \<or> p_userId p = u)
               (Map_values (posts s)))) (Some u)"
      by (rule getFeedForUser_Inr)
    let ?sel = "\<lambda>p. p_userId p \<in> set followingIds \<or> p_userId p = u"
    have s1: "sorted_wrt newer_first r"
      unfolding r
      by (intro enrichPosts_sorted sort_newest_first_sorted sorted_wrt_filter ids)
    have idr: "set (map p_id r) = p_id ` {p \<in> set (Map_values (posts s)). ?sel p}"
      by (auto simp: r enrichPosts_def sort_newest_first_def enrichPost_def Let_def image_iff)
    have inj: "inj_on p_id (set (Map_values (posts s)))"
    proof -
      have "sorted_wrt (<) (map p_id (Map_values (posts s)))"
        using ids by (simp add: sorted_wrt_map)
      then have "distinct (map p_id (Map_values (posts s)))"
        by (simp add: strict_sorted_iff)
      then show ?thesis by (simp add: distinct_map)
    qed
    have mem: "p_id p \<in> set (map p_id r) \<longleftrightarrow> ?sel p" if "p \<in> set (Map_values (posts s))" for p
      using that inj unfolding idr by (auto dest: inj_onD)
    have "filter (\<lambda>p. p_createdAt p = t \<and> p_id p \<in> set (map p_id r)) (Map_values (posts s)) =
          filter (\<lambda>p. p_createdAt p = t) (filter ?sel (Map_values (posts s)))"
      unfolding filter_filter by (rule filter_cong [OF refl]) (use mem in auto)
    then have s2: "map p_id (filter (\<lambda>p. p_createdAt p = t) r) =
              map p_id (filter (\<lambda>p. p_createdAt p = t \<and> p_id p \<in> set (map p_id r))
                 (Map_values (posts s)))"
      by (simp add: r enrichPosts_ids_at sort_newest_first_stable)
    show ?thesis using s1 s2 by simp
  qed
  have tot: "\<exists>r. getFeedForUser s u = Inr r" if "list_all (\<lambda>x. x \<noteq> None) (getFollowing s u)"
    using user_ids_total [OF that] by (auto simp: getFeedForUser_def Let_def)
  show ?thesis using d1 d2 f tot by blast
qed

theorem feeds_newest_first_witness:
  "store_inv example_store \<and>
   map p_id (getDiscoverFeed example_store) = [3, 1, 2] \<and>
   map p_createdAt (getDiscoverFeed example_store) = [200, 100, 100] \<and>
   sorted_wrt newer_first (getDiscoverFeed example_store) \<and>
   (\<exists>r. getFeedForUser example_store 1 = Inr r \<and> map p_id r = [1, 2] \<and>
        sorted_wrt newer_first r)"
proof -
  have d: "map p_id (getDiscoverFeed example_store) = [3, 1, 2]"
    "map p_createdAt (getDiscoverFeed example_store) = [200, 100, 100]"
    by (simp_all add: getDiscoverFeed_def example_store_eq Map_values_def sort_newest_first_def
        enrichPosts_def enrichPost_def Let_def)
  have f: "map_sum id (map p_id) (getFeedForUser example_store 1) = Inr [1, 2]"
    by (simp add: getFeedForUser_def example_store_eq Map_values_def sort_newest_first_def
        enrichPosts_def enrichPost_def Let_def getFollowing_def getUser_def Map_get_def)
  then obtain r where r: "getFeedForUser example_store 1 = Inr r" "map p_id r = [1, 2]"
    by (cases "getFeedForUser example_store 1") auto
  show ?thesis
    using feeds_newest_first [OF store_inv_example, of 100 1] store_inv_example d r
    by auto
qed

text \<open>
  C5. The route that creates a follow, for an authenticated user and a numeric id:
  a follow of oneself is answered with status 400 and the store is unchanged; a
  follow that exists for the pair is answered with status 409 (\<open>Already following\<close>)
  and the store is unchanged; otherwise, the payload passing validation, the answer
  is status 201 and a row for the pair, stamped with the current time, is in the
  follows map under the next identity.
\<close>

theorem create_follow_route:
  assumes "req_user req = Some me" and "req_id req = Some target"
  shows
    "(target = me \<longrightarrow>
        post_users_id_follow insertFollowSchema s req now =
          (Response 400 (Text ''Cannot follow yourself''), s)) \<and>
     (target \<noteq> me \<and> list_ex (\<lambda>f. followerId f = me \<and> followingId f = target) (Map_values (follows s)) \<longrightarrow>
        post_users_id_follow insertFollowSchema s req now =
          (Response 409 (Text ''Already following''), s)) \<and>
     (target \<noteq> me \<and> \<not> list_ex (\<lambda>f. followerId f = me \<and> followingId f = target) (Map_values (follows s)) \<and>
      insertFollowSchema \<lparr>if_followerId = me, if_followingId = target\<rparr> \<longrightarrow>
        (let row = \<lparr>f_id = currentFollowId s, followerId = me, followingId = target, f_createdAt = now\<rparr>;
             r = post_users_id_follow insertFollowSchema s req now
         in fst r = Response 201 (Json_follow row) \<and>
            follows (snd r) = Map_set (currentFollowId s) row (follows s) \<and>
            getFollow (snd r) me target = Some row))"
proof -
  have "getFollow (snd (createFollow s \<lparr>if_followerId = me, if_followingId = target\<rparr> now)) me target =
        Some \<lparr>f_id = currentFollowId s, followerId = me, followingId = target, f_createdAt = now\<rparr>"
    if "getFollow s me target = None"
    using that find_Map_set_new [of "\<lambda>f. followerId f = me \<and> followingId f = target" "follows s"
        "\<lparr>f_id = currentFollowId s, followerId = me, followingId = target, f_createdAt = now\<rparr>"
        "currentFollowId s"]
    by (simp add: getFollow_def createFollow_def Let_def)
  then show ?thesis
    using assms
    by (auto simp: post_users_id_follow_def Let_def find_None_list_ex [symmetric]
        getFollow_def [symmetric] createFollow_def simp del: not_None_eq)
qed

theorem create_follow_route_witness:
  "post_users_id_follow (\<lambda>d. True) example_store \<lparr>req_user = Some 1, req_id = Some 1\<rparr> 500 =
     (Response 400 (Text ''Cannot follow yourself''), example_store) \<and>
   post_users_id_follow (\<lambda>d. True) example_store \<lparr>req_user = Some 1, req_id = Some 2\<rparr> 500 =
     (Response 409 (Text ''Already following''), example_store) \<and>
   fst (post_users_id_follow (\<lambda>d. True) example_store \<lparr>req_user = Some 2, req_id = Some 1\<rparr> 500) =
     Response 201 (Json_follow \<lparr>f_id = 2, followerId = 2, followingId = 1, f_createdAt = 500\<rparr>) \<and>
   Map_values (follows (snd (post_users_id_follow (\<lambda>d. True) example_store
        \<lparr>req_user = Some 2, req_id = Some 1\<rparr> 500))) =
     [\<lparr>f_id = 1, followerId = 1, followingId = 2, f_createdAt = 150\<rparr>,
      \<lparr>f_id = 2, followerId = 2, followingId = 1, f_createdAt = 500\<rparr>]"
proof -
  have ex: "list_ex (\<lambda>f. followerId f = 1 \<and> followingId f = 2) (Map_values (follows example_store))"
    "\<not> list_ex (\<lambda>f. followerId f = 2 \<and> followingId f = 1) (Map_values (follows example_store))"
    by (simp_all add: example_store_eq Map_values_def)
  have st: "currentFollowId example_store = 2"
    "follows example_store = [(1, \<lparr>f_id = 1, followerId = 1, followingId = 2, f_createdAt = 150\<rparr>)]"
    by (simp_all add: example_store_eq)
  show ?thesis
    using create_follow_route [of "\<lparr>req_user = Some 1, req_id = Some 1\<rparr>" 1 1 "\<lambda>d. True" example_store 500]
      create_follow_route [of "\<lparr>req_user = Some 1, req_id = Some 2\<rparr>" 1 2 "\<lambda>d. True" example_store 500]
      create_follow_route [of "\<lparr>req_user = Some 2, req_id = Some 1\<rparr>" 2 1 "\<lambda>d. True" example_store 500]
      ex
    by (simp add: Let_def st Map_set_def Map_values_def)
qed

text \<open>
  C6. The route that creates a like, for an authenticated user and a numeric post id:
  when a like of the post by the user is in the store, the answer is status 409
  (\<open>Post already liked\<close>), the store is unchanged, and so is the number of likes of
  the post.
\<close>

theorem duplicate_like_conflict:
  assumes "req_user req = Some me" and "req_id req = Some postId"
    and "list_ex (\<lambda>l. l_postId l = postId \<and> l_userId l = me) (Map_values (likes s))"
  shows "fst (post_posts_id_likes insertLikeSchema s req now) = Response 409 (Text ''Post already liked'') \<and>
         snd (post_posts_id_likes insertLikeSchema s req now) = s \<and>
         length (getLikesByPost (snd (post_posts_id_likes insertLikeSchema s req now)) postId) =
           length (getLikesByPost s postId)"
  using assms by (simp add: post_posts_id_likes_def getLike_def find_None_list_ex del: not_None_eq)

theorem duplicate_like_conflict_witness:
  "list_ex (\<lambda>l. l_postId l = 1 \<and> l_userId l = 1) (Map_values (likes example_store)) \<and>
   post_posts_id_likes (\<lambda>d. True) example_store \<lparr>req_user = Some 1, req_id = Some 1\<rparr> 500 =
     (Response 409 (Text ''Post already liked''), example_store) \<and>
   length (getLikesByPost example_store 1) = 1"
proof -
  have ex: "list_ex (\<lambda>l. l_postId l = 1 \<and> l_userId l = 1) (Map_values (likes example_store))"
    by (simp add: example_store_eq Map_values_def)
  have n: "length (getLikesByPost example_store 1) = 1"
    by (simp add: example_store_eq Map_values_def getLikesByPost_def)
  show ?thesis
    using duplicate_like_conflict [of "\<lparr>req_user = Some 1, req_id = Some 1\<rparr>" 1 1 example_store
        "\<lambda>d. True" 500] ex n
    by (simp add: prod_eq_iff)
qed

text \<open>
  C7. The claim asks that a follow row whose user is missing be skipped. In the
  in-memory store \<^verbatim>\<open>getFollowing(1)\<close> and \<^verbatim>\<open>getFollowers(1)\<close> return an \<^verbatim>\<open>undefined\<close>
  entry for the missing user 9; the inner join of the relational store, on the same
  rows, skips it.
\<close>

theorem followers_placeholder:
  "map (map_option u_id) (getFollowing dangling_store 1) = [Some 2, None] \<and>
   getFollowers dangling_store 1 = [None] \<and>
   map u_id (db_getFollowing (database_of dangling_store) 1) = [2] \<and>
   db_getFollowers (database_of dangling_store) 1 = []"
  by (simp add: dangling_store_eq example_store_eq getFollowers_def getFollowing_def
      getUser_def Map_get_def Map_values_def db_getFollowing_def db_getFollowers_def
      database_of_def)

text \<open>
  C8. The claim asks for a match that ignores case. On the same users, the query
  \<open>ALI\<close> finds alice and alison in the in-memory store, which lowers both sides, and
  nobody in the relational store, whose \<^verbatim>\<open>LIKE\<close> compares case-sensitively. (The
  in-memory search is the substring match of the claim: lemma
  \<open>searchUsers_substring\<close>; the scenario of the specification: lemma
  \<open>searchUsers_scenario\<close>.)
\<close>

theorem search_case_sensitive_in_database:
  "map username (searchUsers example_store ''ALI'') = [''alice'', ''alison''] \<and>
   db_searchUsers (database_of example_store) ''ALI'' = []"
  by (simp add: searchUsers_def db_searchUsers_def database_of_def example_store_eq
      Map_values_def toLowerCase_def lower_char_def Let_def)

text \<open>
  C9. Run any sequence of store operations from the constructor's state: for each
  kind of entity, the identities that its creates assigned, in the order of
  assignment, are strictly increasing, and none occurs twice, whatever was deleted
  in between. (Numbers are unbounded integers here; the counter of the source is a
  double, exact below \<open>2^53\<close>.)
\<close>

theorem assigned_ids_increasing:
  "sorted_wrt (<) (assigned k (fst (run ops MemStorage))) \<and>
   distinct (assigned k (fst (run ops MemStorage)))"
  using run_assigned_sorted [of k ops MemStorage] by (simp add: strict_sorted_iff)

text \<open>
  C10. When no post has the id, \<^verbatim>\<open>deletePost(id)\<close> returns false, and the comments and
  likes that remain are exactly those whose \<^verbatim>\<open>postId\<close> is not the id: the cascade over
  the dependents has run all the same.
\<close>

theorem deletePost_missing_post:
  assumes "store_inv s" and "Map_get (posts s) i = None"
  shows "fst (deletePost s i) = False \<and>
         Map_values (comments (snd (deletePost s i))) =
           filter (\<lambda>c. c_postId c \<noteq> i) (Map_values (comments s)) \<and>
         Map_values (likes (snd (deletePost s i))) =
           filter (\<lambda>l. l_postId l \<noteq> i) (Map_values (likes s)) \<and>
         posts (snd (deletePost s i)) = posts s"
proof -
  have "i \<notin> fst ` set (posts s)"
    using assms(2) by (simp add: Map_get_def map_of_eq_None_iff)
  then have "AList.delete i (posts s) = posts s" by simp
  then show ?thesis
    using assms by (simp add: deletePost_comments deletePost_likes deletePost_posts)
qed

theorem deletePost_missing_post_witness:
  "store_inv example_store \<and> Map_get (posts example_store) 7 = None \<and>
   map c_id (Map_values (comments example_store)) = [1, 2] \<and>
   map l_id (Map_values (likes example_store)) = [1, 2] \<and>
   fst (deletePost example_store 7) = False \<and>
   map c_id (Map_values (comments (snd (deletePost example_store 7)))) = [1] \<and>
   map l_id (Map_values (likes (snd (deletePost example_store 7)))) = [1]"
proof -
  have none: "Map_get (posts example_store) 7 = None"
    by (simp add: example_store_eq Map_get_def)
  have vals: "map c_id (Map_values (comments example_store)) = [1, 2]"
    "map l_id (Map_values (likes example_store)) = [1, 2]"
    "map c_id (filter (\<lambda>c. c_postId c \<noteq> 7) (Map_values (comments example_store))) = [1]"
    "map l_id (filter (\<lambda>l. l_postId l \<noteq> 7) (Map_values (likes example_store))) = [1]"
    by (simp_all add: example_store_eq Map_values_def)
  show ?thesis
    using deletePost_missing_post [OF store_inv_example none] store_inv_example none vals
    by simp
qed

end
